theory Spec2Isabelle
  imports Complex_Main "HOL-Library.Word"
begin

unbundle bit_operations_syntax

section \<open>JavaScript values used by the client\<close>

text \<open>
  The client is TypeScript running in a browser. Its numbers are IEEE doubles; the model
  uses the reals for every finite value and keeps the three non-finite results of a
  division apart, because HOL's \<open>x / 0 = 0\<close> is not what JavaScript computes.
  Rounding is not modelled: the sums below are integers far below \<open>2 ^ 53\<close> and the
  divisions by \<open>32768\<close> are divisions by a power of two, both exact in a double.
\<close>

datatype js_number = Num real | PosInfinity | NegInfinity | NaN

definition js_div :: "real \<Rightarrow> real \<Rightarrow> js_number" where
  \<comment> \<open>\<open>a / b\<close> on finite doubles, the divisor a non-negative zero when it is zero\<close>
  "js_div a b =
     (if b \<noteq> 0 then Num (a / b)
      else if a = 0 then NaN
      else if 0 < a then PosInfinity
      else NegInfinity)"

type_synonym uint8array = "8 word list"

section \<open>helpers/audio.ts\<close>

text \<open>
  \<^verbatim>\<open>let values = 0; for (let i = 0; i < array.length; i++) { values += array[i]; }\<close>
  The loop counter runs upwards, so the recursion is on \<open>length array - i\<close>.
\<close>

function getAverageVolume_loop :: "uint8array \<Rightarrow> nat \<Rightarrow> real \<Rightarrow> real" where
  "getAverageVolume_loop array i values =
     (if i < length array
      then getAverageVolume_loop array (Suc i) (values + real (unat (array ! i)))
      else values)"
  by pat_completeness auto
termination
  by (relation "measure (\<lambda>(array, i, values). length array - i)") auto

declare getAverageVolume_loop.simps [simp del]

definition getAverageVolume :: "uint8array \<Rightarrow> js_number" where
  \<comment> \<open>\<^verbatim>\<open>return values / array.length;\<close> with no check of the length\<close>
  "getAverageVolume array =
     js_div (getAverageVolume_loop array 0 0) (real (length array))"

section \<open>components/ai/VoiceInteraction.tsx: decoding a PCM chunk\<close>

text \<open>
  \<^verbatim>\<open>let intSample = pcmData[index] | (pcmData[index + 1] << 8);
  if (intSample >= 0x8000) { intSample = intSample - 0x10000; }\<close>
  A read past the end of a typed array is \<open>undefined\<close>, and \<open>undefined << 8\<close> is
  \<open>0\<close>; the loop below only ever reads \<open>pcmData[index]\<close> in range.
\<close>

definition u8_at :: "uint8array \<Rightarrow> nat \<Rightarrow> int" where
  \<comment> \<open>the element as an operand of a bitwise operator: \<open>ToInt32 undefined = 0\<close>\<close>
  "u8_at pcmData k = (if k < length pcmData then uint (pcmData ! k) else 0)"

definition intSample :: "uint8array \<Rightarrow> nat \<Rightarrow> int" where
  "intSample pcmData index =
     (let s = u8_at pcmData index OR push_bit 8 (u8_at pcmData (index + 1))
      in if s \<ge> 0x8000 then s - 0x10000 else s)"

text \<open>
  \<^verbatim>\<open>const totalSamples = pcmData.length / bytesPerSample;\<close> is a double, a half-integer
  for an odd length. \<open>createBuffer\<close> takes its length as an unsigned long, so the
  buffer has \<open>length pcmData div 2\<close> frames, all zero; the loop
  \<^verbatim>\<open>for (let i = 0; i < totalSamples; i++) channelData[i] = intSample / 32768;\<close>
  compares with the double, and a write past the end of the Float32Array is ignored,
  which is what \<open>list_update\<close> does out of range.
\<close>

definition bytesPerSample :: nat where
  "bytesPerSample = 2"

function decode_loop :: "uint8array \<Rightarrow> nat \<Rightarrow> real list \<Rightarrow> real list" where
  "decode_loop pcmData i channelData =
     (if real i < real (length pcmData) / real bytesPerSample
      then decode_loop pcmData (Suc i)
             (channelData[i := real_of_int (intSample pcmData (i * bytesPerSample)) / 32768])
      else channelData)"
  by pat_completeness auto
termination
  by (relation "measure (\<lambda>(pcmData, i, channelData). length pcmData - 2 * i)")
     (auto simp: bytesPerSample_def)

declare decode_loop.simps [simp del]

definition decodeChannelData :: "uint8array \<Rightarrow> real list" where
  "decodeChannelData pcmData =
     decode_loop pcmData 0 (replicate (length pcmData div bytesPerSample) 0)"

definition le_int16 :: "8 word \<Rightarrow> 8 word \<Rightarrow> int" where
  \<comment> \<open>the claim's reading of two bytes: low byte first, two's complement on 16 bits\<close>
  "le_int16 lo hi = sint (word_cat hi lo :: 16 word)"

section \<open>components/ai/VoiceInteraction.tsx: state and playback queue\<close>

text \<open>
  The component keeps React state (\<open>isRecording\<close>, \<open>receivedMessage\<close> and \<open>reasoning\<close>
  are jotai atoms, \<open>aiStatusMessage\<close> is local state) and four refs. The model is one
  record, passed through every handler. \<open>startedSources\<close> records, in call order, each
  \<^verbatim>\<open>source.start(audioStartTimeRef.current)\<close> with the buffer handed to it, and
  \<open>console\<close> the literal first argument of each console call.
\<close>

datatype console_entry = ConsoleLog string | ConsoleWarn string | ConsoleError string

datatype js_error = NotSupportedError | TypeError | SyntaxError

record audio_source =
  start_when :: real
  channelData :: "real list"
  duration :: real

record voice_state =
  isRecording :: bool
  receivedMessage :: string
  reasoning :: bool
  aiStatusMessage :: string
  audioContextRef :: bool
  audioStartTimeRef :: real
  allowRecordingRef :: bool
  numSourcesPlaying :: int
  startedSources :: "audio_source list"
  console :: "console_entry list"

definition initial_voice_state :: voice_state where
  \<comment> \<open>the atoms' defaults, the \<open>useState\<close> and \<open>useRef\<close> initial values, and the audio
      context that the first effect creates\<close>
  "initial_voice_state =
     \<lparr> isRecording = False, receivedMessage = [], reasoning = False,
       aiStatusMessage = ''Press the space bar to speak!'',
       audioContextRef = True, audioStartTimeRef = 0, allowRecordingRef = True,
       numSourcesPlaying = 0, startedSources = [], console = [] \<rparr>"

definition sampleRate :: real where
  "sampleRate = 24000"

text \<open>
  \<open>queueAudioChunk\<close>. \<open>currentTime\<close> is \<^verbatim>\<open>audioContextRef.current.currentTime\<close> at the
  call. \<open>createBuffer\<close> throws NotSupportedError when asked for zero frames, which is
  the case of a one-byte chunk; nothing has been written to the refs by then.
  The analyser node is not modelled.
\<close>

definition queueAudioChunk :: "real \<Rightarrow> uint8array \<Rightarrow> voice_state \<Rightarrow> js_error + voice_state" where
  "queueAudioChunk currentTime pcmData st =
     (if \<not> audioContextRef st then Inr st
      else if length pcmData = 0 then Inr st
      else if length pcmData div bytesPerSample = 0 then Inl NotSupportedError
      else
        let audioBuffer_duration = real (length pcmData div bytesPerSample) / sampleRate;
            startTime = (if audioStartTimeRef st < currentTime then currentTime
                         else audioStartTimeRef st);
            source = \<lparr> start_when = startTime,
                       channelData = decodeChannelData pcmData,
                       duration = audioBuffer_duration \<rparr>
        in Inr (st\<lparr> audioStartTimeRef := startTime + audioBuffer_duration,
                     startedSources := startedSources st @ [source],
                     numSourcesPlaying := numSourcesPlaying st + 1,
                     aiStatusMessage := ''AI is speaking...'',
                     reasoning := False \<rparr>))"

definition onended :: "voice_state \<Rightarrow> voice_state" where
  \<comment> \<open>\<open>source.onended\<close>\<close>
  "onended st =
     (let st1 = st\<lparr> numSourcesPlaying := numSourcesPlaying st - 1,
                    console := console st @ [ConsoleLog ''Audio source ended, remaining sources playing:''] \<rparr>
      in if numSourcesPlaying st1 = 0
         then st1\<lparr> console := console st1 @ [ConsoleLog ''Played all the audio buffer, based numSourcesPlaying''],
                   allowRecordingRef := True,
                   aiStatusMessage := ''Press the space bar to speak!'' \<rparr>
         else st1)"

text \<open>
  The key handlers. The effect that registers them is re-run whenever \<open>isRecording\<close>
  changes, so the \<open>isRecording\<close> that \<open>handleKeyUp\<close> reads is the current one.
\<close>

definition handleKeyDown :: "string \<Rightarrow> voice_state \<Rightarrow> voice_state" where
  "handleKeyDown code st =
     (if code = ''Space'' \<and> allowRecordingRef st
      then st\<lparr> isRecording := True, aiStatusMessage := ''Recording...'' \<rparr>
      else st)"

definition handleKeyUp :: "string \<Rightarrow> voice_state \<Rightarrow> voice_state" where
  "handleKeyUp code st =
     (if code = ''Space'' \<and> isRecording st \<and> allowRecordingRef st
      then st\<lparr> allowRecordingRef := False, isRecording := False,
                aiStatusMessage := ''AI is thinking...'', reasoning := True \<rparr>
      else st)"

definition onStreamEnd :: "voice_state \<Rightarrow> voice_state" where
  "onStreamEnd st = st\<lparr> console := console st @ [ConsoleLog ''Stream ended''] \<rparr>"

section \<open>api/audioStream.ts: sendAudioBlob\<close>

text \<open>
  \<open>axios.post\<close> is the environment: a function from the request to either the error
  it rejects with or the response it resolves with. \<open>API_URL\<close> comes from the build
  environment and \<open>token\<close> from \<open>localStorage\<close>, where a missing key reads as \<open>null\<close>.
  The result is how the promise returned by the async function settles, and what it
  printed.
\<close>

record post_request =
  url :: string
  form_file :: uint8array
  contentType :: string
  authorization :: string

datatype ('e, 'a) settled = Fulfilled 'a | Rejected 'e

definition sendAudioBlob ::
  "string \<Rightarrow> (post_request \<Rightarrow> 'e + 'r) \<Rightarrow> string option \<Rightarrow> uint8array
     \<Rightarrow> ('e, 'r option) settled \<times> console_entry list" where
  "sendAudioBlob API_URL axios_post token blob =
     (let request = \<lparr> url = API_URL @ ''/receive_audio_blob'', form_file = blob,
                        contentType = ''multipart/form-data'',
                        authorization = ''Bearer '' @ (case token of None \<Rightarrow> ''null'' | Some t \<Rightarrow> t) \<rparr>
      in case axios_post request of
           Inr response \<Rightarrow> (Fulfilled (Some response), [])
         | Inl error \<Rightarrow> (Fulfilled None, [ConsoleError ''Error sending audio blob: '']))"

definition sendAudio ::
  "string \<Rightarrow> (post_request \<Rightarrow> 'e + 'r) \<Rightarrow> string option \<Rightarrow> uint8array
     \<Rightarrow> ('e, unit) settled \<times> console_entry list" where
  \<comment> \<open>\<^verbatim>\<open>console.log('Sending audio blob...'); await sendAudioBlob(recordedBlob);\<close>\<close>
  "sendAudio API_URL axios_post token recordedBlob =
     (case sendAudioBlob API_URL axios_post token recordedBlob of
        (Fulfilled r, out) \<Rightarrow> (Fulfilled (), ConsoleLog ''Sending audio blob...'' # out)
      | (Rejected e, out) \<Rightarrow> (Rejected e, ConsoleLog ''Sending audio blob...'' # out))"

definition onStop ::
  "string \<Rightarrow> (post_request \<Rightarrow> 'e + 'r) \<Rightarrow> string option \<Rightarrow> uint8array
     \<Rightarrow> voice_state \<Rightarrow> ('e, unit) settled \<times> voice_state" where
  \<comment> \<open>\<^verbatim>\<open>await sendAudio(recordedBlob.blob); setIsRecording(false);\<close>: a rejection
      would skip the second statement\<close>
  "onStop API_URL axios_post token blob st =
     (case sendAudio API_URL axios_post token blob of
        (Fulfilled u, out) \<Rightarrow>
          (Fulfilled (), st\<lparr> isRecording := False, console := console st @ out \<rparr>)
      | (Rejected e, out) \<Rightarrow> (Rejected e, st\<lparr> console := console st @ out \<rparr>))"

section \<open>components/ai/VoiceInteraction.tsx: the WebSocket message handler\<close>

text \<open>
  A message event carries an ArrayBuffer (the socket's \<open>binaryType\<close>) or a string.
  \<open>JSON.parse\<close> is the platform's: a parameter, \<open>None\<close> where it throws SyntaxError.
  Reading \<open>.type\<close> of \<open>null\<close> throws TypeError, inside the same \<open>try\<close>; of any other
  value that is not an object with that key it is \<open>undefined\<close>.
\<close>

datatype json =
    JNull | JBool bool | JNumber real | JString string
  | JArray "json list" | JObject "(string \<times> json) list"

datatype ws_data = ArrayBuffer uint8array | TextData string

definition get_type :: "json \<Rightarrow> js_error + json option" where
  "get_type jsonObj =
     (case jsonObj of
        JNull \<Rightarrow> Inl TypeError
      | JObject members \<Rightarrow> Inr (map_of members ''type'')
      | _ \<Rightarrow> Inr None)"

definition on_parse_failure :: "string \<Rightarrow> voice_state \<Rightarrow> voice_state" where
  \<comment> \<open>the \<open>catch\<close> block\<close>
  "on_parse_failure data st =
     st\<lparr> console := console st @ [ConsoleWarn ''Received non-binary message:'',
                                   ConsoleError ''Received error:''] \<rparr>"

definition onmessage ::
  "(string \<Rightarrow> json option) \<Rightarrow> real \<Rightarrow> ws_data \<Rightarrow> voice_state \<Rightarrow> js_error + voice_state" where
  "onmessage JSON_parse currentTime data st =
     (case data of
        ArrayBuffer bytes \<Rightarrow> queueAudioChunk currentTime bytes st
      | TextData text \<Rightarrow>
          (case JSON_parse text of
             None \<Rightarrow> Inr (on_parse_failure text st)
           | Some jsonObj \<Rightarrow>
               (case get_type jsonObj of
                  Inl e \<Rightarrow> Inr (on_parse_failure text st)
                | Inr ty \<Rightarrow>
                    if ty = Some (JString ''END_OF_STREAM'')
                    then Inr (onStreamEnd
                                (st\<lparr> console := console st @ [ConsoleLog ''End of stream received''] \<rparr>))
                    else if ty = Some (JString ''show_image'')
                    then Inr (st\<lparr> console := console st @ [ConsoleLog ''Websocket got message:''],
                                   receivedMessage := text \<rparr>)
                    else Inr st)))"

text \<open>
  \<open>getAudioStream\<close> of api/audioStream.ts has the same handler without the
  \<open>show_image\<close> branch; its two callbacks are parameters.
\<close>

definition getAudioStream_onmessage ::
  "(string \<Rightarrow> json option) \<Rightarrow> (uint8array \<Rightarrow> 's \<Rightarrow> js_error + 's) \<Rightarrow> ('s \<Rightarrow> 's)
     \<Rightarrow> ws_data \<Rightarrow> 's \<times> console_entry list \<Rightarrow> js_error + 's \<times> console_entry list" where
  "getAudioStream_onmessage JSON_parse queueAudio onStreamEnd_cb data sc =
     (case data of
        ArrayBuffer bytes \<Rightarrow>
          (case queueAudio bytes (fst sc) of Inl e \<Rightarrow> Inl e | Inr s' \<Rightarrow> Inr (s', snd sc))
      | TextData text \<Rightarrow>
          (let failed = (fst sc, snd sc @ [ConsoleWarn ''Received non-binary message:'',
                                            ConsoleError ''Received error:''])
           in case JSON_parse text of
                None \<Rightarrow> Inr failed
              | Some jsonData \<Rightarrow>
                  (case get_type jsonData of
                     Inl e \<Rightarrow> Inr failed
                   | Inr ty \<Rightarrow>
                       if ty = Some (JString ''END_OF_STREAM'')
                       then Inr (onStreamEnd_cb (fst sc),
                                 snd sc @ [ConsoleLog ''End of stream received''])
                       else Inr sc)))"

text \<open>
  A table that agrees with \<open>JSON.parse\<close> on the frames used as concrete inputs below,
  and rejects every other text.
\<close>

definition frame_end_of_dialog_step :: string where
  \<open>frame_end_of_dialog_step = ''{"type": "END_OF_DIALOG_STEP"}''\<close>

definition frame_end_of_stream :: string where
  \<open>frame_end_of_stream = ''{"type": "END_OF_STREAM"}''\<close>

definition frame_show_image :: string where
  \<open>frame_show_image = ''{"type": "show_image", "image": "audi_q6_interior.jpg"}''\<close>

definition frame_text_chunk :: string where
  \<open>frame_text_chunk = ''{"type": "text_chunk", "content": "This "}''\<close>

definition parse_table :: "string \<Rightarrow> json option" where
  "parse_table text =
     (if text = frame_end_of_dialog_step
        then Some (JObject [(''type'', JString ''END_OF_DIALOG_STEP'')])
      else if text = frame_end_of_stream
        then Some (JObject [(''type'', JString ''END_OF_STREAM'')])
      else if text = frame_show_image
        then Some (JObject [(''type'', JString ''show_image''),
                            (''image'', JString ''audi_q6_interior.jpg'')])
      else if text = frame_text_chunk
        then Some (JObject [(''type'', JString ''text_chunk''), (''content'', JString ''This '')])
      else if text = ''null'' then Some JNull
      else None)"

section \<open>Sequences of calls to queueAudioChunk\<close>

text \<open>
  Each WebSocket message is handled in its own task: an exception thrown by one call
  ends that task and leaves the refs as they were, and the next message is handled in
  the state the last one left. A call is a pair of the audio context's current time and
  the chunk. \<open>claimed_schedule\<close> is the schedule as the specification words it (each
  chunk starts at the later of the current time and the end of the one before), over the
  calls that schedule anything at all.
\<close>

definition queueAudioChunk_event :: "real \<times> uint8array \<Rightarrow> voice_state \<Rightarrow> voice_state" where
  "queueAudioChunk_event call st =
     (case queueAudioChunk (fst call) (snd call) st of Inl e \<Rightarrow> st | Inr st' \<Rightarrow> st')"

definition queueAudioChunk_calls :: "(real \<times> uint8array) list \<Rightarrow> voice_state \<Rightarrow> voice_state" where
  "queueAudioChunk_calls calls st = fold queueAudioChunk_event calls st"

definition schedulable :: "real \<times> uint8array \<Rightarrow> bool" where
  "schedulable call = (2 \<le> length (snd call))"

fun claimed_schedule :: "real \<Rightarrow> (real \<times> uint8array) list \<Rightarrow> audio_source list" where
  "claimed_schedule previous_end [] = []"
| "claimed_schedule previous_end ((currentTime, pcmData) # calls) =
     (let start = max currentTime previous_end;
          d = real (length pcmData div 2) / 24000
      in \<lparr> start_when = start, channelData = decodeChannelData pcmData, duration = d \<rparr>
         # claimed_schedule (start + d) calls)"

definition scheduled_end :: "audio_source \<Rightarrow> real" where
  "scheduled_end src = start_when src + duration src"

fun non_overlapping :: "audio_source list \<Rightarrow> bool" where
  "non_overlapping [] = True"
| "non_overlapping [a] = True"
| "non_overlapping (a # b # rest) = (scheduled_end a \<le> start_when b \<and> non_overlapping (b # rest))"

section \<open>Concrete states and environments\<close>

text \<open>
  \<open>after_submission\<close> is the state of the component once the user has held and
  released the space bar, and \<open>failing_post\<close> an upload that the network rejects.
\<close>

definition after_submission :: voice_state where
  "after_submission = handleKeyUp ''Space'' (handleKeyDown ''Space'' initial_voice_state)"

definition failing_post :: "post_request \<Rightarrow> string + string" where
  "failing_post request = Inl ''Network Error''"

section \<open>Login.tsx and the WebSocket effect of VoiceInteraction.tsx\<close>

text \<open>
  \<open>handleLogin\<close> stores the token and the session id of a successful response in
  \<open>localStorage\<close> and reports the authentication, after which App renders the showroom
  and with it the voice component. The component's last effect runs once per mount: it
  reads the session id (a missing key reads as \<open>null\<close>), opens a WebSocket for it, and
  returns the cleanup, which closes the socket only if it is OPEN
  (\<^verbatim>\<open>if (socket.readyState === WebSocket.OPEN) { socket.close(); }\<close>).
  The page's sockets are kept in creation order; \<open>effect_socket\<close> is the index of the
  socket that the mounted component's effect created. The browser moves a socket from
  CONNECTING to OPEN and from any state to CLOSED; \<open>close()\<close> on an open socket makes
  it CLOSING.
\<close>

datatype ready_state = CONNECTING | OPEN | CLOSING | CLOSED

record web_socket =
  socket_url :: string
  readyState :: ready_state

record login_response =
  response_ok :: bool
  data_token :: string
  data_session_id :: string

record page =
  localStorage :: "string \<Rightarrow> string option"
  isAuthenticated :: bool
  sockets :: "web_socket list"
  effect_socket :: "nat option"

definition initial_page :: page where
  "initial_page = \<lparr> localStorage = Map.empty, isAuthenticated = False, sockets = [],
                     effect_socket = None \<rparr>"

definition handleLogin :: "login_response \<Rightarrow> page \<Rightarrow> page" where
  "handleLogin response pg =
     (if response_ok response
      then pg\<lparr> localStorage := (localStorage pg)(''token'' \<mapsto> data_token response,
                                                ''session_id'' \<mapsto> data_session_id response),
               isAuthenticated := True \<rparr>
      else pg)"

definition socket_effect :: "string \<Rightarrow> page \<Rightarrow> page" where
  "socket_effect WEBSOCKET_URL pg =
     (let session_id = (case localStorage pg ''session_id'' of None \<Rightarrow> ''null'' | Some s \<Rightarrow> s);
          socket = \<lparr> socket_url = WEBSOCKET_URL @ ''/audio/'' @ session_id,
                     readyState = CONNECTING \<rparr>
      in pg\<lparr> sockets := sockets pg @ [socket], effect_socket := Some (length (sockets pg)) \<rparr>)"

definition socket_cleanup :: "page \<Rightarrow> page" where
  "socket_cleanup pg =
     (case effect_socket pg of
        None \<Rightarrow> pg
      | Some i \<Rightarrow>
          if i < length (sockets pg) \<and> readyState (sockets pg ! i) = OPEN
          then pg\<lparr> sockets := (sockets pg)[i := (sockets pg ! i)\<lparr> readyState := CLOSING \<rparr>],
                   effect_socket := None \<rparr>
          else pg\<lparr> effect_socket := None \<rparr>)"

datatype page_event = Login login_response | Mount | Unmount | NetOpen nat | NetClose nat

definition page_step :: "string \<Rightarrow> page_event \<Rightarrow> page \<Rightarrow> page" where
  "page_step WEBSOCKET_URL ev pg =
     (case ev of
        Login response \<Rightarrow> handleLogin response pg
      | Mount \<Rightarrow>
          if isAuthenticated pg \<and> effect_socket pg = None then socket_effect WEBSOCKET_URL pg
          else pg
      | Unmount \<Rightarrow> socket_cleanup pg
      | NetOpen i \<Rightarrow>
          if i < length (sockets pg) \<and> readyState (sockets pg ! i) = CONNECTING
          then pg\<lparr> sockets := (sockets pg)[i := (sockets pg ! i)\<lparr> readyState := OPEN \<rparr>] \<rparr>
          else pg
      | NetClose i \<Rightarrow>
          if i < length (sockets pg)
          then pg\<lparr> sockets := (sockets pg)[i := (sockets pg ! i)\<lparr> readyState := CLOSED \<rparr>] \<rparr>
          else pg)"

definition page_run :: "string \<Rightarrow> page_event list \<Rightarrow> page \<Rightarrow> page" where
  "page_run WEBSOCKET_URL evs pg = fold (page_step WEBSOCKET_URL) evs pg"

definition is_live :: "web_socket \<Rightarrow> bool" where
  "is_live s = (readyState s = CONNECTING \<or> readyState s = OPEN)"

definition live_sockets :: "page \<Rightarrow> web_socket list" where
  "live_sockets pg = filter is_live (sockets pg)"

definition still_connecting :: "page \<Rightarrow> bool" where
  "still_connecting pg =
     (case effect_socket pg of
        None \<Rightarrow> False
      | Some i \<Rightarrow> i < length (sockets pg) \<and> readyState (sockets pg ! i) = CONNECTING)"

fun unmounts_after_open :: "string \<Rightarrow> page_event list \<Rightarrow> page \<Rightarrow> bool" where
  "unmounts_after_open WEBSOCKET_URL [] pg = True"
| "unmounts_after_open WEBSOCKET_URL (ev # evs) pg =
     ((ev = Unmount \<longrightarrow> \<not> still_connecting pg)
      \<and> unmounts_after_open WEBSOCKET_URL evs (page_step WEBSOCKET_URL ev pg))"

definition sample_login :: login_response where
  "sample_login = \<lparr> response_ok = True, data_token = ''t0'', data_session_id = ''s1'' \<rparr>"

definition one_channel_inv :: "page \<Rightarrow> bool" where
  "one_channel_inv pg =
     (case effect_socket pg of
        None \<Rightarrow> (\<forall>s \<in> set (sockets pg). \<not> is_live s)
      | Some i \<Rightarrow> sockets pg \<noteq> [] \<and> i = length (sockets pg) - 1
                  \<and> (\<forall>s \<in> set (butlast (sockets pg)). \<not> is_live s))"

section \<open>The server's Turn Gate and Step Runner\<close>

text \<open>
  Modelled from the spec: the server side of the protocol (the Turn Gate of section 4.2,
  the Step Runner of 4.5, the failure semantics of the Streaming Channel in 4.4 and the
  error taxonomy of 7) is not among the sources, which hold the browser client only.
  A session has a gate state, the input of the running step, a FIFO queue of pending
  inputs and the frames sent so far; \<open>accepted\<close> counts the inputs the gate admitted.
  An inbound action without a string \<open>type\<close> is rejected and never queued; an input is
  started at once on an idle gate and queued otherwise, unless the queue is at its bound;
  an input for a session whose channel is gone is rejected. When the Agent signals
  completion, or fails, or runs into its deadline, the responses are relayed, each
  followed by the end-of-response marker (a failure still yields one), and the gate
  drains; sending the step terminator returns the gate to IDLE or starts the next queued
  input. Losing the transport aborts the step, returns the gate to IDLE and drops the
  pending inputs. Timed messages and the Dialog Log do not bear on the terminators and
  are left out. \<open>drain\<close> lets the server finish all the work it holds, with \<open>agent\<close>
  giving the outcome of each step.
\<close>

datatype gate_state = IDLE | STEP_ACTIVE | DRAINING

datatype step_input = AudioInput uint8array | ActionInput "(string \<times> json) list"

datatype outbound_frame =
    BinaryFrame uint8array
  | ApplicationPayload string "(string \<times> json) list"
  | EndOfResponse
  | EndOfDialogStep

datatype agent_chunk = AudioChunk uint8array | AgentMessage string "(string \<times> json) list"

datatype agent_result = AgentCompleted "agent_chunk list list" | AgentStepFailure

datatype gate_error = MalformedInput | TurnGateCapacityExceeded | TransportDisconnected

record session =
  gate :: gate_state
  active_input :: "step_input option"
  pending :: "step_input list"
  outbound :: "outbound_frame list"
  accepted :: nat
  channel_connected :: bool

definition initial_session :: session where
  \<comment> \<open>Modelled from the spec: a fresh session (3, 4.1): idle gate, empty queue, channel bound\<close>
  "initial_session = \<lparr> gate = IDLE, active_input = None, pending = [], outbound = [],
                        accepted = 0, channel_connected = True \<rparr>"

fun well_formed_input :: "step_input \<Rightarrow> bool" where
  \<comment> \<open>Modelled from the spec: the MalformedInput check of the boundary (6, 7)\<close>
  "well_formed_input (AudioInput bytes) = True"
| "well_formed_input (ActionInput members) =
     (case map_of members ''type'' of Some (JString t) \<Rightarrow> True | _ \<Rightarrow> False)"

definition submit :: "nat option \<Rightarrow> step_input \<Rightarrow> session \<Rightarrow> gate_error + session" where
  \<comment> \<open>Modelled from the spec: the Turn Gate's admission of an input (4.2, 6, 7); the server is not among the sources\<close>
  "submit max_depth input s =
     (if \<not> well_formed_input input then Inl MalformedInput
      else if \<not> channel_connected s then Inl TransportDisconnected
      else if gate s = IDLE
        then Inr (s\<lparr> gate := STEP_ACTIVE, active_input := Some input,
                     accepted := accepted s + 1 \<rparr>)
      else if (case max_depth of None \<Rightarrow> False | Some d \<Rightarrow> d \<le> length (pending s))
        then Inl TurnGateCapacityExceeded
      else Inr (s\<lparr> pending := pending s @ [input], accepted := accepted s + 1 \<rparr>))"

fun forward :: "agent_chunk \<Rightarrow> outbound_frame" where
  \<comment> \<open>Modelled from the spec: chunks and auxiliary messages are forwarded unmodified (3, 4.5 step 2)\<close>
  "forward (AudioChunk bytes) = BinaryFrame bytes"
| "forward (AgentMessage ty members) = ApplicationPayload ty members"

fun response_frames :: "agent_result \<Rightarrow> outbound_frame list" where
  \<comment> \<open>Modelled from the spec: each response ends with the end-of-response marker (4.5 steps 4 and 6, 7)\<close>
  "response_frames (AgentCompleted responses) =
     concat (map (\<lambda>chunks. map forward chunks @ [EndOfResponse]) responses)"
| "response_frames AgentStepFailure = [EndOfResponse]"

definition agent_signal :: "agent_result \<Rightarrow> session \<Rightarrow> session" where
  \<comment> \<open>Modelled from the spec: the Step Runner relaying a finished or failed Agent call (4.5 steps 2 to 6 and failure handling, 7); the server is not among the sources\<close>
  "agent_signal result s =
     (if gate s = STEP_ACTIVE
      then s\<lparr> outbound := outbound s @ response_frames result, gate := DRAINING \<rparr>
      else s)"

definition send_step_terminator :: "session \<Rightarrow> session" where
  \<comment> \<open>Modelled from the spec: the Step Runner's step 8 and the gate's return from DRAINING (4.2, 4.5); the server is not among the sources\<close>
  "send_step_terminator s =
     (if gate s = DRAINING
      then (case pending s of
              [] \<Rightarrow> s\<lparr> outbound := outbound s @ [EndOfDialogStep], gate := IDLE,
                        active_input := None \<rparr>
            | next_input # rest \<Rightarrow>
                s\<lparr> outbound := outbound s @ [EndOfDialogStep], gate := STEP_ACTIVE,
                   active_input := Some next_input, pending := rest \<rparr>)
      else s)"

definition transport_lost :: "session \<Rightarrow> session" where
  \<comment> \<open>Modelled from the spec: the failure semantics of the Streaming Channel (4.4, 7); the server is not among the sources\<close>
  "transport_lost s =
     s\<lparr> gate := IDLE, active_input := None, pending := [], channel_connected := False \<rparr>"

datatype session_event =
    Submit step_input | AgentSignal agent_result | TerminatorFlushed | TransportLost

definition session_step :: "nat option \<Rightarrow> session_event \<Rightarrow> session \<Rightarrow> session" where
  \<comment> \<open>Modelled from the spec: one event of a server session; the server is not among the sources\<close>
  "session_step max_depth ev s =
     (case ev of
        Submit input \<Rightarrow> (case submit max_depth input s of Inl e \<Rightarrow> s | Inr s' \<Rightarrow> s')
      | AgentSignal result \<Rightarrow> agent_signal result s
      | TerminatorFlushed \<Rightarrow> send_step_terminator s
      | TransportLost \<Rightarrow> transport_lost s)"

definition session_run :: "nat option \<Rightarrow> session_event list \<Rightarrow> session \<Rightarrow> session" where
  \<comment> \<open>Modelled from the spec: a session handling a sequence of events\<close>
  "session_run max_depth evs s = fold (session_step max_depth) evs s"

definition run_agent :: "(step_input \<Rightarrow> agent_result) \<Rightarrow> session \<Rightarrow> agent_result" where
  \<comment> \<open>Modelled from the spec: the Agent capability applied to the running step's input (6)\<close>
  "run_agent agent s = (case active_input s of None \<Rightarrow> AgentStepFailure | Some input \<Rightarrow> agent input)"

function drain :: "(step_input \<Rightarrow> agent_result) \<Rightarrow> session \<Rightarrow> session" where
  \<comment> \<open>Modelled from the spec: the server finishing every step it holds (4.2, 4.5)\<close>
  "drain agent s =
     (case gate s of
        IDLE \<Rightarrow> s
      | STEP_ACTIVE \<Rightarrow> drain agent (agent_signal (run_agent agent s) s)
      | DRAINING \<Rightarrow> drain agent (send_step_terminator s))"
  by pat_completeness auto
termination
  by (relation "measure (\<lambda>(agent, s). 2 * length (pending s) +
         (case gate s of IDLE \<Rightarrow> 0 | DRAINING \<Rightarrow> 1 | STEP_ACTIVE \<Rightarrow> 2))")
     (auto simp: agent_signal_def send_step_terminator_def split: list.splits)

declare drain.simps [simp del]

definition step_terminators :: "session \<Rightarrow> nat" where
  \<comment> \<open>Modelled from the spec: the number of end-of-dialog-step markers sent (8)\<close>
  "step_terminators s = length (filter (\<lambda>f. f = EndOfDialogStep) (outbound s))"

definition in_flight :: "session \<Rightarrow> nat" where
  \<comment> \<open>Modelled from the spec: the inputs accepted and not yet terminated: the running one and the queue (4.2)\<close>
  "in_flight s = (if gate s = IDLE then 0 else 1) + length (pending s)"

definition failing_agent :: "step_input \<Rightarrow> agent_result" where
  \<comment> \<open>Modelled from the spec: an Agent whose every call fails (4.5, 7)\<close>
  "failing_agent input = AgentStepFailure"

definition accounted :: "session \<Rightarrow> bool" where
  \<comment> \<open>Modelled from the spec: the accounting of accepted inputs over a session (8)\<close>
  "accounted s = (step_terminators s + in_flight s = accepted s
                  \<and> (gate s = IDLE \<longrightarrow> pending s = []))"

section \<open>Properties of getAverageVolume\<close>

lemma getAverageVolume_loop_sum:
  "getAverageVolume_loop array i values
     = values + (\<Sum>b\<leftarrow>drop i array. real (unat b))"
proof (induction array i "values" rule: getAverageVolume_loop.induct)
  case (1 array i acc)
  show ?case
  proof (cases "i < length array")
    case True
    then have "drop i array = array ! i # drop (Suc i) array"
      by (simp add: Cons_nth_drop_Suc)
    with True "1.IH" show ?thesis
      by (subst getAverageVolume_loop.simps) simp
  next
    case False
    then show ?thesis
      by (subst getAverageVolume_loop.simps) simp
  qed
qed

text \<open>
  C10. For a non-empty array getAverageVolume is the sum of the elements divided by the
  number of elements; for the empty array the unguarded division is \<open>0 / 0\<close> and the
  result is NaN.
\<close>

theorem getAverageVolume_mean_or_NaN:
  "getAverageVolume [] = NaN \<and>
   (array \<noteq> [] \<longrightarrow>
      getAverageVolume array = Num ((\<Sum>b\<leftarrow>array. real (unat b)) / real (length array)))"
  by (simp add: getAverageVolume_def getAverageVolume_loop_sum js_div_def)

theorem getAverageVolume_mean_or_NaN_witness:
  "getAverageVolume [] = NaN \<and> [10, 20, 255 :: 8 word] \<noteq> [] \<and>
   getAverageVolume [10, 20, 255] = Num 95"
  using getAverageVolume_mean_or_NaN [of "[10, 20, 255]"] by simp

section \<open>Properties of the PCM decoder\<close>

lemma uint_cat16: "uint (word_cat (hi :: 8 word) (lo :: 8 word) :: 16 word) = uint lo OR push_bit 8 (uint hi)"
  by (rule bit_eqI) (auto simp: bit_simps dest: bit_imp_le_length)

lemma sint16: "sint (w :: 16 word) = (if uint w \<ge> 0x8000 then uint w - 0x10000 else uint w)"
proof -
  have b: "0 \<le> uint w" "uint w < 65536"
    using uint_lt2p [of w] by simp_all
  have s: "sint w = (uint w + 32768) mod 65536 - 32768"
    by (simp add: sint_uint signed_take_bit_eq_take_bit_shift take_bit_eq_mod)
  show ?thesis
  proof (cases "uint w \<ge> 0x8000")
    case True
    have e: "uint w + 32768 = (uint w - 32768) + 65536"
      by simp
    have "(uint w + 32768) mod 65536 = (uint w - 32768) mod 65536"
      by (subst e) (simp only: mod_add_self2)
    also have "\<dots> = uint w - 32768"
      using True b by (simp add: mod_pos_pos_trivial)
    finally show ?thesis
      using True s by simp
  next
    case False
    then have "(uint w + 32768) mod 65536 = uint w + 32768"
      using b by (simp add: mod_pos_pos_trivial)
    with False s show ?thesis by simp
  qed
qed

lemma le_int16_eq:
  "le_int16 lo hi = (let s = uint lo OR push_bit 8 (uint hi) in if s \<ge> 0x8000 then s - 0x10000 else s)"
  unfolding le_int16_def Let_def sint16 uint_cat16 ..

lemma intSample_pair:
  "index + 1 < length pcmData \<Longrightarrow>
     intSample pcmData index = le_int16 (pcmData ! index) (pcmData ! (index + 1))"
  by (simp add: intSample_def u8_at_def le_int16_eq)

lemma le_int16_range: "- 32768 \<le> le_int16 lo hi \<and> le_int16 lo hi < 32768"
  using sint_ge [of "word_cat hi lo :: 16 word"] sint_lt [of "word_cat hi lo :: 16 word"]
  by (simp add: le_int16_def)

lemma decode_loop_length [simp]: "length (decode_loop pcmData i buf) = length buf"
proof (induction pcmData i buf rule: decode_loop.induct)
  case (1 pcmData i buf)
  then show ?case
    by (subst decode_loop.simps) simp
qed

lemma decode_loop_nth:
  "k < length buf \<Longrightarrow> length buf = length pcmData div 2 \<Longrightarrow>
   decode_loop pcmData i buf ! k =
     (if i \<le> k then real_of_int (intSample pcmData (k * 2)) / 32768 else buf ! k)"
proof (induction pcmData i buf rule: decode_loop.induct)
  case (1 pcmData i buf)
  show ?case
  proof (cases "real i < real (length pcmData) / real bytesPerSample")
    case True
    have "decode_loop pcmData i buf ! k =
            decode_loop pcmData (Suc i)
              (buf[i := real_of_int (intSample pcmData (i * 2)) / 32768]) ! k"
      using True by (simp add: decode_loop.simps [of pcmData i buf] bytesPerSample_def)
    also have "\<dots> = (if Suc i \<le> k then real_of_int (intSample pcmData (k * 2)) / 32768
                       else buf[i := real_of_int (intSample pcmData (i * 2)) / 32768] ! k)"
      using True "1.prems" "1.IH" by (simp add: bytesPerSample_def)
    also have "\<dots> = (if i \<le> k then real_of_int (intSample pcmData (k * 2)) / 32768
                       else buf ! k)"
      using "1.prems" by (cases "i = k") (auto simp: nth_list_update)
    finally show ?thesis .
  next
    case False
    then have "length pcmData \<le> 2 * i"
      by (simp add: bytesPerSample_def field_simps)
    with "1.prems" have "\<not> i \<le> k" by linarith
    with False show ?thesis
      by (simp add: decode_loop.simps [of pcmData i buf])
  qed
qed

lemma decodeChannelData_values:
  assumes "length pcmData = 2 * n"
  shows "length (decodeChannelData pcmData) = n \<and>
         (\<forall>i<n. decodeChannelData pcmData ! i
                    = real_of_int (le_int16 (pcmData ! (2 * i)) (pcmData ! (2 * i + 1))) / 32768
                \<and> - 1 \<le> decodeChannelData pcmData ! i
                \<and> decodeChannelData pcmData ! i < 1)"
proof (intro conjI allI impI)
  show len: "length (decodeChannelData pcmData) = n"
    using assms by (simp add: decodeChannelData_def bytesPerSample_def)
  fix i assume i: "i < n"
  have "decodeChannelData pcmData ! i = real_of_int (intSample pcmData (i * 2)) / 32768"
    using assms i by (simp add: decodeChannelData_def bytesPerSample_def decode_loop_nth)
  also have "intSample pcmData (i * 2) = le_int16 (pcmData ! (2 * i)) (pcmData ! (2 * i + 1))"
    using assms i intSample_pair [of "i * 2" pcmData] by (simp add: mult.commute)
  finally show v: "decodeChannelData pcmData ! i
                    = real_of_int (le_int16 (pcmData ! (2 * i)) (pcmData ! (2 * i + 1))) / 32768" .
  from le_int16_range [of "pcmData ! (2 * i)" "pcmData ! (2 * i + 1)"]
  have "- 32768 \<le> real_of_int (le_int16 (pcmData ! (2 * i)) (pcmData ! (2 * i + 1)))"
       "real_of_int (le_int16 (pcmData ! (2 * i)) (pcmData ! (2 * i + 1))) < 32768"
    by linarith+
  then show "- 1 \<le> decodeChannelData pcmData ! i" "decodeChannelData pcmData ! i < 1"
    unfolding v by simp_all
qed

lemma queueAudioChunk_starts_source:
  assumes "audioContextRef st" "2 \<le> length pcmData"
  shows "queueAudioChunk now pcmData st =
           Inr (st\<lparr> audioStartTimeRef := max now (audioStartTimeRef st) + real (length pcmData div 2) / 24000,
                startedSources := startedSources st @
                   [\<lparr> start_when = max now (audioStartTimeRef st),
                      channelData = decodeChannelData pcmData,
                      duration = real (length pcmData div 2) / 24000 \<rparr>],
                numSourcesPlaying := numSourcesPlaying st + 1,
                aiStatusMessage := ''AI is speaking...'',
                reasoning := False \<rparr>)"
proof -
  from assms(2) have "length pcmData \<noteq> 0" "length pcmData div 2 \<noteq> 0"
    by auto
  with assms(1) show ?thesis
    by (simp add: queueAudioChunk_def bytesPerSample_def sampleRate_def Let_def max_def)
qed

text \<open>
  C9. A chunk of \<open>2 * n\<close> bytes decodes to exactly \<open>n\<close> samples; sample \<open>i\<close> is the
  signed little-endian 16-bit integer made of bytes \<open>2 * i\<close> and \<open>2 * i + 1\<close>, divided by
  \<open>32768\<close>, and lies in the half-open interval from \<open>-1\<close> to \<open>1\<close>. These samples are
  the buffer of the source that queueAudioChunk starts for the chunk.
\<close>

theorem decode_samples:
  assumes "length pcmData = 2 * n"
  shows "length (decodeChannelData pcmData) = n \<and>
         (\<forall>i<n. decodeChannelData pcmData ! i
                    = real_of_int (le_int16 (pcmData ! (2 * i)) (pcmData ! (2 * i + 1))) / 32768
                \<and> - 1 \<le> decodeChannelData pcmData ! i
                \<and> decodeChannelData pcmData ! i < 1) \<and>
         (audioContextRef st \<and> 0 < n \<longrightarrow>
            (\<exists>st'. queueAudioChunk now pcmData st = Inr st'
                 \<and> channelData (last (startedSources st')) = decodeChannelData pcmData))"
proof -
  have "audioContextRef st \<and> 0 < n \<longrightarrow>
          (\<exists>st'. queueAudioChunk now pcmData st = Inr st'
               \<and> channelData (last (startedSources st')) = decodeChannelData pcmData)"
  proof
    assume a: "audioContextRef st \<and> 0 < n"
    with assms have "2 \<le> length pcmData" by simp
    with a show "\<exists>st'. queueAudioChunk now pcmData st = Inr st'
               \<and> channelData (last (startedSources st')) = decodeChannelData pcmData"
      by (simp add: queueAudioChunk_starts_source)
  qed
  with decodeChannelData_values [OF assms] show ?thesis
    by blast
qed

theorem decode_samples_witness:
  "length [0xFE, 0xFF, 0x00, 0x80 :: 8 word] = 2 * 2 \<and>
   length (decodeChannelData [0xFE, 0xFF, 0x00, 0x80]) = 2 \<and>
   (1::nat) < 2 \<and> decodeChannelData [0xFE, 0xFF, 0x00, 0x80] ! 1 = - 1 \<and>
   audioContextRef initial_voice_state \<and> (0::nat) < 2 \<and>
   (\<exists>st'. queueAudioChunk 0 [0xFE, 0xFF, 0x00, 0x80] initial_voice_state = Inr st'
        \<and> channelData (last (startedSources st')) = decodeChannelData [0xFE, 0xFF, 0x00, 0x80])"
proof -
  have h: "length [0xFE, 0xFF, 0x00, 0x80 :: 8 word] = 2 * 2"
    by simp
  have c: "audioContextRef initial_voice_state"
    by (simp add: initial_voice_state_def)
  from decode_samples [OF h, of initial_voice_state 0]
  have l: "length (decodeChannelData [0xFE, 0xFF, 0x00, 0x80]) = 2"
    and a: "\<forall>i<2. decodeChannelData [0xFE, 0xFF, 0x00, 0x80] ! i
              = real_of_int (le_int16 ([0xFE, 0xFF, 0x00, 0x80] ! (2 * i))
                                      ([0xFE, 0xFF, 0x00, 0x80] ! (2 * i + 1))) / 32768"
    and q: "audioContextRef initial_voice_state \<and> (0::nat) < 2 \<longrightarrow>
            (\<exists>st'. queueAudioChunk 0 [0xFE, 0xFF, 0x00, 0x80] initial_voice_state = Inr st'
                 \<and> channelData (last (startedSources st')) = decodeChannelData [0xFE, 0xFF, 0x00, 0x80])"
    by blast+
  from a have "decodeChannelData [0xFE, 0xFF, 0x00, 0x80] ! 1
                 = real_of_int (le_int16 0x00 0x80) / 32768"
    by (simp add: numeral_2_eq_2 numeral_3_eq_3)
  then have "decodeChannelData [0xFE, 0xFF, 0x00, 0x80] ! 1 = - 1"
    by (simp add: le_int16_eq)
  with h l c q show ?thesis by simp
qed


section \<open>Properties of the playback schedule\<close>

lemma queueAudioChunk_event_skip:
  "\<not> schedulable call \<Longrightarrow> queueAudioChunk_event call st = st"
  by (auto simp: queueAudioChunk_event_def queueAudioChunk_def schedulable_def bytesPerSample_def)

lemma queueAudioChunk_event_no_context:
  "\<not> audioContextRef st \<Longrightarrow> queueAudioChunk_event call st = st"
  by (simp add: queueAudioChunk_event_def queueAudioChunk_def)

lemma queueAudioChunk_event_starts_source:
  assumes "audioContextRef st" "schedulable (now, pcmData)"
  shows "queueAudioChunk_event (now, pcmData) st =
           st\<lparr> audioStartTimeRef := max now (audioStartTimeRef st) + real (length pcmData div 2) / 24000,
                startedSources := startedSources st @
                   [\<lparr> start_when = max now (audioStartTimeRef st),
                      channelData = decodeChannelData pcmData,
                      duration = real (length pcmData div 2) / 24000 \<rparr>],
                numSourcesPlaying := numSourcesPlaying st + 1,
                aiStatusMessage := ''AI is speaking...'',
                reasoning := False \<rparr>"
proof -
  from assms(2) have "length pcmData \<noteq> 0" "length pcmData div 2 \<noteq> 0"
    by (auto simp: schedulable_def)
  with assms(1) show ?thesis
    by (simp add: queueAudioChunk_event_def queueAudioChunk_def bytesPerSample_def
        sampleRate_def Let_def max_def)
qed

lemma calls_refine:
  "audioContextRef st \<Longrightarrow>
   startedSources (queueAudioChunk_calls calls st)
     = startedSources st @ claimed_schedule (audioStartTimeRef st) (filter schedulable calls)
   \<and> audioContextRef (queueAudioChunk_calls calls st)"
proof (induction calls arbitrary: st)
  case Nil
  then show ?case by (simp add: queueAudioChunk_calls_def)
next
  case (Cons call calls)
  obtain now pcmData where c: "call = (now, pcmData)" by (cases call)
  show ?case
  proof (cases "schedulable call")
    case True
    let ?st' = "queueAudioChunk_event call st"
    have e: "?st' = st\<lparr> audioStartTimeRef := max now (audioStartTimeRef st) + real (length pcmData div 2) / 24000,
                startedSources := startedSources st @
                   [\<lparr> start_when = max now (audioStartTimeRef st),
                      channelData = decodeChannelData pcmData,
                      duration = real (length pcmData div 2) / 24000 \<rparr>],
                numSourcesPlaying := numSourcesPlaying st + 1,
                aiStatusMessage := ''AI is speaking...'',
                reasoning := False \<rparr>"
      using Cons.prems True unfolding c by (rule queueAudioChunk_event_starts_source)
    then have ctx: "audioContextRef ?st'" using Cons.prems by simp
    have s1: "startedSources ?st' = startedSources st @
                   [\<lparr> start_when = max now (audioStartTimeRef st),
                      channelData = decodeChannelData pcmData,
                      duration = real (length pcmData div 2) / 24000 \<rparr>]"
      and s2: "audioStartTimeRef ?st'
                 = max now (audioStartTimeRef st) + real (length pcmData div 2) / 24000"
      by (simp_all add: e)
    have "filter schedulable (call # calls) = (now, pcmData) # filter schedulable calls"
      using True c by simp
    with Cons.IH [OF ctx] show ?thesis
      unfolding queueAudioChunk_calls_def by (simp add: s1 s2 Let_def)
  next
    case False
    then have "queueAudioChunk_event call st = st"
      by (rule queueAudioChunk_event_skip)
    with Cons.IH [OF Cons.prems] False show ?thesis
      by (simp add: queueAudioChunk_calls_def)
  qed
qed

lemma claimed_schedule_starts:
  "src \<in> set (claimed_schedule previous_end calls) \<Longrightarrow> previous_end \<le> start_when src"
proof (induction calls arbitrary: previous_end)
  case Nil
  then show ?case by simp
next
  case (Cons call calls)
  obtain now pcmData where c: "call = (now, pcmData)" by (cases call)
  have d: "0 \<le> real (length pcmData div 2) / 24000" by simp
  from Cons.prems show ?case
    unfolding c
  proof (simp add: Let_def, elim disjE)
    assume "src = \<lparr>start_when = max now previous_end, channelData = decodeChannelData pcmData,
                      duration = real (length pcmData div 2) / 24000\<rparr>"
    then show "previous_end \<le> start_when src" by simp
  next
    assume "src \<in> set (claimed_schedule (max now previous_end + real (length pcmData div 2) / 24000) calls)"
    from Cons.IH [OF this] d show "previous_end \<le> start_when src"
      by simp
  qed
qed

lemma claimed_schedule_non_overlapping:
  "non_overlapping (claimed_schedule previous_end calls)"
proof (induction calls arbitrary: previous_end)
  case Nil
  then show ?case by simp
next
  case (Cons call calls)
  obtain now pcmData where c: "call = (now, pcmData)" by (cases call)
  show ?case
  proof (cases "claimed_schedule (max now previous_end + real (length pcmData div 2) / 24000) calls")
    case Nil
    then show ?thesis by (simp add: c Let_def)
  next
    case (Cons b rest)
    then have "b \<in> set (claimed_schedule (max now previous_end + real (length pcmData div 2) / 24000) calls)"
      by simp
    then have "max now previous_end + real (length pcmData div 2) / 24000 \<le> start_when b"
      by (rule claimed_schedule_starts)
    moreover have "non_overlapping (b # rest)"
      using Cons.IH [of "max now previous_end + real (length pcmData div 2) / 24000"] Cons
      by simp
    ultimately show ?thesis
      using Cons by (simp add: c Let_def scheduled_end_def)
  qed
qed

lemma non_overlapping_nth:
  "non_overlapping ss \<Longrightarrow> Suc i < length ss \<Longrightarrow> scheduled_end (ss ! i) \<le> start_when (ss ! Suc i)"
proof (induction ss arbitrary: i rule: non_overlapping.induct)
  case (3 a b rest)
  then show ?case by (cases i) simp_all
qed simp_all

lemma calls_ref:
  "audioContextRef st \<Longrightarrow>
   audioStartTimeRef (queueAudioChunk_calls calls st)
     = (if filter schedulable calls = [] then audioStartTimeRef st
        else scheduled_end (last (startedSources (queueAudioChunk_calls calls st))))"
proof (induction calls arbitrary: st)
  case Nil
  then show ?case by (simp add: queueAudioChunk_calls_def)
next
  case (Cons call calls)
  obtain now pcmData where c: "call = (now, pcmData)" by (cases call)
  show ?case
  proof (cases "schedulable call")
    case True
    let ?st' = "queueAudioChunk_event call st"
    have e: "?st' = st\<lparr> audioStartTimeRef := max now (audioStartTimeRef st) + real (length pcmData div 2) / 24000,
                startedSources := startedSources st @
                   [\<lparr> start_when = max now (audioStartTimeRef st),
                      channelData = decodeChannelData pcmData,
                      duration = real (length pcmData div 2) / 24000 \<rparr>],
                numSourcesPlaying := numSourcesPlaying st + 1,
                aiStatusMessage := ''AI is speaking...'',
                reasoning := False \<rparr>"
      using Cons.prems True unfolding c by (rule queueAudioChunk_event_starts_source)
    then have ctx: "audioContextRef ?st'" using Cons.prems by simp
    have s1: "startedSources ?st' = startedSources st @
                   [\<lparr> start_when = max now (audioStartTimeRef st),
                      channelData = decodeChannelData pcmData,
                      duration = real (length pcmData div 2) / 24000 \<rparr>]"
      and s2: "audioStartTimeRef ?st'
                 = max now (audioStartTimeRef st) + real (length pcmData div 2) / 24000"
      by (simp_all add: e)
    have r: "queueAudioChunk_calls (call # calls) st = queueAudioChunk_calls calls ?st'"
      by (simp add: queueAudioChunk_calls_def)
    show ?thesis
    proof (cases "filter schedulable calls = []")
      case True
      have "startedSources (queueAudioChunk_calls calls ?st') = startedSources ?st'"
        using calls_refine [OF ctx, of calls] True by simp
      moreover have "audioStartTimeRef (queueAudioChunk_calls calls ?st') = audioStartTimeRef ?st'"
        using Cons.IH [OF ctx] True by simp
      ultimately show ?thesis
        using \<open>schedulable call\<close> by (simp add: r s1 s2 scheduled_end_def)
    next
      case False
      with Cons.IH [OF ctx] \<open>schedulable call\<close> show ?thesis
        by (simp add: r)
    qed
  next
    case False
    then have "queueAudioChunk_event call st = st"
      by (rule queueAudioChunk_event_skip)
    with Cons.IH [OF Cons.prems] False show ?thesis
      by (simp add: queueAudioChunk_calls_def)
  qed
qed

text \<open>
  C8. After any sequence of calls to queueAudioChunk from the initial state, the sources
  started are, in arrival order, the schedule in which each chunk starts at the later of
  the current time and the end of the chunk before it; consecutive intervals do not
  overlap; the ref holds the end of the last scheduled chunk; and the next chunk starts
  at the later of the current time and that end, so exactly at that end (no gap) whenever
  scheduled audio is still ahead of the clock.
\<close>

theorem queueAudioChunk_schedule:
  "let st = queueAudioChunk_calls calls initial_voice_state; ss = startedSources st in
     ss = claimed_schedule 0 (filter schedulable calls)
   \<and> (\<forall>i. Suc i < length ss \<longrightarrow> scheduled_end (ss ! i) \<le> start_when (ss ! Suc i))
   \<and> audioStartTimeRef st = (if ss = [] then 0 else scheduled_end (last ss))
   \<and> (\<forall>now pcmData. schedulable (now, pcmData) \<longrightarrow>
         (\<exists>src. startedSources (queueAudioChunk_event (now, pcmData) st) = ss @ [src]
              \<and> start_when src = max now (audioStartTimeRef st)
              \<and> (now \<le> audioStartTimeRef st \<longrightarrow> start_when src = audioStartTimeRef st)))"
proof -
  define st where "st = queueAudioChunk_calls calls initial_voice_state"
  define ss where "ss = startedSources st"
  have ctx0: "audioContextRef initial_voice_state"
    by (simp add: initial_voice_state_def)
  from calls_refine [OF ctx0, of calls]
  have r: "ss = claimed_schedule 0 (filter schedulable calls)" and ctx: "audioContextRef st"
    by (simp_all add: ss_def st_def initial_voice_state_def)
  have n: "\<forall>i. Suc i < length ss \<longrightarrow> scheduled_end (ss ! i) \<le> start_when (ss ! Suc i)"
    unfolding r using claimed_schedule_non_overlapping non_overlapping_nth by blast
  have empty: "ss = [] \<longleftrightarrow> filter schedulable calls = []"
    unfolding r by (cases "filter schedulable calls") (auto simp: Let_def)
  have e: "audioStartTimeRef st = (if ss = [] then 0 else scheduled_end (last ss))"
    using calls_ref [OF ctx0, of calls] empty
    by (simp add: ss_def st_def initial_voice_state_def)
  have nxt: "\<forall>now pcmData. schedulable (now, pcmData) \<longrightarrow>
         (\<exists>src. startedSources (queueAudioChunk_event (now, pcmData) st) = ss @ [src]
              \<and> start_when src = max now (audioStartTimeRef st)
              \<and> (now \<le> audioStartTimeRef st \<longrightarrow> start_when src = audioStartTimeRef st))"
  proof (intro allI impI)
    fix now pcmData assume "schedulable (now, pcmData)"
    from queueAudioChunk_event_starts_source [OF ctx this]
    show "\<exists>src. startedSources (queueAudioChunk_event (now, pcmData) st) = ss @ [src]
              \<and> start_when src = max now (audioStartTimeRef st)
              \<and> (now \<le> audioStartTimeRef st \<longrightarrow> start_when src = audioStartTimeRef st)"
      by (simp add: ss_def)
  qed
  from r n e nxt show ?thesis
    unfolding Let_def st_def [symmetric] ss_def [symmetric] by blast
qed

theorem queueAudioChunk_schedule_witness:
  "startedSources (queueAudioChunk_calls [(1, [0, 0, 0, 0]), (1, [7]), (1, [1, 0])] initial_voice_state)
     = [\<lparr> start_when = 1, channelData = decodeChannelData [0, 0, 0, 0], duration = 2 / 24000 \<rparr>,
        \<lparr> start_when = 1 + 2 / 24000, channelData = decodeChannelData [1, 0], duration = 1 / 24000 \<rparr>]
   \<and> audioStartTimeRef (queueAudioChunk_calls [(1, [0, 0, 0, 0]), (1, [7]), (1, [1, 0])] initial_voice_state)
       = 1 + 3 / 24000
   \<and> schedulable (1, [5, 0])
   \<and> (\<exists>src. startedSources (queueAudioChunk_event (1, [5, 0])
                (queueAudioChunk_calls [(1, [0, 0, 0, 0]), (1, [7]), (1, [1, 0])] initial_voice_state))
            = startedSources (queueAudioChunk_calls [(1, [0, 0, 0, 0]), (1, [7]), (1, [1, 0])] initial_voice_state) @ [src]
          \<and> start_when src = 1 + 3 / 24000)"
proof -
  let ?calls = "[(1, [0, 0, 0, 0]), (1, [7]), (1, [1, 0])] :: (real \<times> uint8array) list"
  let ?st = "queueAudioChunk_calls ?calls initial_voice_state"
  have f: "filter schedulable ?calls = [(1, [0, 0, 0, 0]), (1, [1, 0])]"
    by (simp add: schedulable_def)
  have sch: "schedulable (1, [5, 0])"
    by (simp add: schedulable_def)
  from queueAudioChunk_schedule [of ?calls]
  have a: "startedSources ?st = claimed_schedule 0 (filter schedulable ?calls)"
    and b: "audioStartTimeRef ?st
              = (if startedSources ?st = [] then 0 else scheduled_end (last (startedSources ?st)))"
    and c: "\<forall>now pcmData. schedulable (now, pcmData) \<longrightarrow>
         (\<exists>src. startedSources (queueAudioChunk_event (now, pcmData) ?st) = startedSources ?st @ [src]
              \<and> start_when src = max now (audioStartTimeRef ?st)
              \<and> (now \<le> audioStartTimeRef ?st \<longrightarrow> start_when src = audioStartTimeRef ?st))"
    unfolding Let_def by blast+
  have a': "startedSources ?st
     = [\<lparr> start_when = 1, channelData = decodeChannelData [0, 0, 0, 0], duration = 2 / 24000 \<rparr>,
        \<lparr> start_when = 1 + 2 / 24000, channelData = decodeChannelData [1, 0], duration = 1 / 24000 \<rparr>]"
    unfolding a f by (simp add: Let_def)
  have b': "audioStartTimeRef ?st = 1 + 3 / 24000"
    unfolding b a' by (simp add: scheduled_end_def)
  from c sch obtain src where
    "startedSources (queueAudioChunk_event (1, [5, 0]) ?st) = startedSources ?st @ [src]"
    "start_when src = max 1 (audioStartTimeRef ?st)"
    by blast
  then have "\<exists>src. startedSources (queueAudioChunk_event (1, [5, 0]) ?st) = startedSources ?st @ [src]
          \<and> start_when src = 1 + 3 / 24000"
    unfolding b' by simp
  with a' b' sch show ?thesis by blast
qed


section \<open>Properties of the message handler and the recording gate\<close>

lemma after_submission_eq:
  "after_submission = initial_voice_state\<lparr> allowRecordingRef := False, aiStatusMessage := ''AI is thinking...'', reasoning := True \<rparr>"
  by (simp add: after_submission_def handleKeyUp_def handleKeyDown_def initial_voice_state_def)

text \<open>
  C1. A text frame whose \<open>type\<close> is \<open>END_OF_DIALOG_STEP\<close> matches neither literal the
  handlers compare with (\<open>END_OF_STREAM\<close>, \<open>show_image\<close>): both handlers return the state
  they were given, \<open>onStreamEnd\<close> is not called and recording stays blocked. The
  terminator the documented protocol sends is not recognised.
\<close>

theorem onmessage_ignores_END_OF_DIALOG_STEP:
  assumes "JSON_parse msg = Some jsonObj"
      and "get_type jsonObj = Inr (Some (JString ''END_OF_DIALOG_STEP''))"
  shows "onmessage JSON_parse currentTime (TextData msg) st = Inr st
       \<and> getAudioStream_onmessage JSON_parse queueAudio onStreamEnd_cb (TextData msg) sc = Inr sc"
  using assms by (simp add: onmessage_def getAudioStream_onmessage_def Let_def)

theorem onmessage_ignores_END_OF_DIALOG_STEP_witness:
  "parse_table frame_end_of_dialog_step = Some (JObject [(''type'', JString ''END_OF_DIALOG_STEP'')])
   \<and> get_type (JObject [(''type'', JString ''END_OF_DIALOG_STEP'')]) = Inr (Some (JString ''END_OF_DIALOG_STEP''))
   \<and> onmessage parse_table 0 (TextData frame_end_of_dialog_step) after_submission = Inr after_submission
   \<and> \<not> allowRecordingRef after_submission"
proof -
  have p: "parse_table frame_end_of_dialog_step = Some (JObject [(''type'', JString ''END_OF_DIALOG_STEP'')])"
    by (simp add: parse_table_def)
  have g: "get_type (JObject [(''type'', JString ''END_OF_DIALOG_STEP'')]) = Inr (Some (JString ''END_OF_DIALOG_STEP''))"
    by (simp add: get_type_def)
  from onmessage_ignores_END_OF_DIALOG_STEP [where JSON_parse = parse_table and msg = frame_end_of_dialog_step
        and currentTime = "0" and st = after_submission, OF p g, THEN conjunct1] p g
  show ?thesis
    by (simp add: after_submission_eq)
qed

text \<open>
  C2, as stated: while a step is active the client can submit again at once. After the
  space bar has been released the next press does not start a recording.
\<close>

theorem resubmission_refused_counterexample:
  "\<not> isRecording (handleKeyDown ''Space'' (handleKeyUp ''Space'' (handleKeyDown ''Space'' initial_voice_state)))"
  by (simp add: handleKeyUp_def handleKeyDown_def initial_voice_state_def)

text \<open>
  C2, amended. A submission blocks further input: releasing the space bar after a
  recording ends the recording and clears \<open>allowRecordingRef\<close>, and while it is clear
  neither a key press nor a key release starts a recording or changes anything. The
  client has to wait until recording is allowed again before it can submit.
\<close>

theorem recording_blocked_after_submission:
  "(code = ''Space'' \<and> isRecording st \<and> allowRecordingRef st \<longrightarrow>
      \<not> allowRecordingRef (handleKeyUp code st) \<and> \<not> isRecording (handleKeyUp code st))
   \<and> (\<not> allowRecordingRef st \<longrightarrow> handleKeyDown key st = st \<and> handleKeyUp key st = st)"
  by (simp add: handleKeyUp_def handleKeyDown_def)

theorem recording_blocked_after_submission_witness:
  "isRecording (handleKeyDown ''Space'' initial_voice_state)
   \<and> allowRecordingRef (handleKeyDown ''Space'' initial_voice_state)
   \<and> \<not> allowRecordingRef after_submission
   \<and> \<not> isRecording after_submission
   \<and> handleKeyDown ''Space'' after_submission = after_submission
   \<and> handleKeyUp ''Space'' after_submission = after_submission"
proof -
  have a: "isRecording (handleKeyDown ''Space'' initial_voice_state)"
          "allowRecordingRef (handleKeyDown ''Space'' initial_voice_state)"
    by (simp_all add: handleKeyDown_def initial_voice_state_def)
  from recording_blocked_after_submission
         [where code = "''Space''" and st = "handleKeyDown ''Space'' initial_voice_state"] a
  have b: "\<not> allowRecordingRef after_submission" "\<not> isRecording after_submission"
    by (simp_all add: after_submission_def)
  from recording_blocked_after_submission [where st = after_submission and key = "''Space''"] b
  have "handleKeyDown ''Space'' after_submission = after_submission"
       "handleKeyUp ''Space'' after_submission = after_submission"
    by simp_all
  with a b show ?thesis by simp
qed





text \<open>
  C5, as stated: every JSON frame that is not a terminator is forwarded to its handler.
  A \<open>text_chunk\<close> frame leaves \<open>receivedMessage\<close> as it was.
\<close>

theorem text_chunk_not_forwarded_counterexample:
  "onmessage parse_table 0 (TextData frame_text_chunk) initial_voice_state = Inr initial_voice_state
   \<and> receivedMessage initial_voice_state \<noteq> frame_text_chunk"
  by (simp add: onmessage_def parse_table_def get_type_def initial_voice_state_def
      frame_end_of_dialog_step_def frame_end_of_stream_def frame_show_image_def frame_text_chunk_def)

text \<open>
  C5, amended. A JSON frame is forwarded, as the unmodified frame text, exactly when its
  \<open>type\<close> is \<open>show_image\<close>; for every other \<open>type\<close> \<open>receivedMessage\<close> keeps its value.
\<close>

theorem onmessage_forwards_only_show_image:
  assumes "JSON_parse msg = Some jsonObj" and "get_type jsonObj = Inr ty"
  shows "\<exists>st'. onmessage JSON_parse now (TextData msg) st = Inr st'
           \<and> receivedMessage st' = (if ty = Some (JString ''show_image'') then msg
                                      else receivedMessage st)"
  using assms by (simp add: onmessage_def onStreamEnd_def)

theorem onmessage_forwards_only_show_image_witness:
  "parse_table frame_show_image
     = Some (JObject [(''type'', JString ''show_image''), (''image'', JString ''audi_q6_interior.jpg'')])
   \<and> get_type (JObject [(''type'', JString ''show_image''), (''image'', JString ''audi_q6_interior.jpg'')])
       = Inr (Some (JString ''show_image''))
   \<and> (\<exists>st'. onmessage parse_table 0 (TextData frame_show_image) initial_voice_state = Inr st'
            \<and> receivedMessage st' = frame_show_image)"
proof -
  have p: "parse_table frame_show_image
     = Some (JObject [(''type'', JString ''show_image''), (''image'', JString ''audi_q6_interior.jpg'')])"
    by (simp add: parse_table_def frame_end_of_dialog_step_def frame_end_of_stream_def
        frame_show_image_def)
  have g: "get_type (JObject [(''type'', JString ''show_image''), (''image'', JString ''audi_q6_interior.jpg'')])
       = Inr (Some (JString ''show_image''))"
    by (simp add: get_type_def)
  from onmessage_forwards_only_show_image [where JSON_parse = parse_table and msg = frame_show_image
      and now = "0" and st = initial_voice_state, OF p g] p g
  show ?thesis by simp
qed



section \<open>Properties of sendAudioBlob\<close>

text \<open>
  C6, as stated: a failed upload rejects or returns an error. With a post that fails,
  the promise is fulfilled with \<open>undefined\<close> and the error only reaches the console.
\<close>

theorem sendAudioBlob_failure_fulfilled_counterexample:
  "sendAudioBlob ''http://localhost:8000'' failing_post (Some ''abc'') [1, 2, 3]
     = (Fulfilled None, [ConsoleError ''Error sending audio blob: ''])"
  by (simp add: sendAudioBlob_def failing_post_def)

text \<open>
  C6, amended. sendAudioBlob never rejects: it is fulfilled with the response when the
  post succeeds and with \<open>undefined\<close> when it fails, and a failure prints one console
  error.
\<close>

theorem sendAudioBlob_swallows_failure:
  "sendAudioBlob API_URL axios_post token blob =
     (let request = \<lparr> url = API_URL @ ''/receive_audio_blob'', form_file = blob,
                        contentType = ''multipart/form-data'',
                        authorization = ''Bearer '' @ (case token of None \<Rightarrow> ''null'' | Some t \<Rightarrow> t) \<rparr>
      in (Fulfilled (case axios_post request of Inl err \<Rightarrow> None | Inr response \<Rightarrow> Some response),
          case axios_post request of Inl err \<Rightarrow> [ConsoleError ''Error sending audio blob: '']
          | Inr response \<Rightarrow> []))
   \<and> fst (sendAudioBlob API_URL axios_post token blob) \<noteq> Rejected e"
  by (simp add: sendAudioBlob_def Let_def split: sum.splits)

theorem sendAudioBlob_swallows_failure_witness:
  "fst (sendAudioBlob ''http://localhost:8000'' failing_post (Some ''abc'') [1, 2, 3]) = Fulfilled None
   \<and> fst (sendAudioBlob ''http://localhost:8000'' failing_post (Some ''abc'') [1, 2, 3])
        \<noteq> Rejected ''Network Error''"
  using sendAudioBlob_swallows_failure [of "''http://localhost:8000''" failing_post "Some ''abc''" "[1, 2, 3]" "''Network Error''"]
  by (simp add: failing_post_def)


section \<open>Properties of the WebSocket effect\<close>

lemma inv_bound: "one_channel_inv pg \<Longrightarrow> length (live_sockets pg) \<le> 1"
proof (cases "effect_socket pg")
  case None
  assume "one_channel_inv pg"
  with None have "filter is_live (sockets pg) = []"
    by (auto simp: one_channel_inv_def filter_empty_conv)
  then show ?thesis by (simp add: live_sockets_def)
next
  case (Some i)
  assume "one_channel_inv pg"
  with Some have ne: "sockets pg \<noteq> []" and b: "\<forall>s \<in> set (butlast (sockets pg)). \<not> is_live s"
    by (simp_all add: one_channel_inv_def)
  from ne have "sockets pg = butlast (sockets pg) @ [last (sockets pg)]"
    by simp
  then have "filter is_live (sockets pg)
               = filter is_live (butlast (sockets pg)) @ filter is_live [last (sockets pg)]"
    by (metis filter_append)
  moreover from b have "filter is_live (butlast (sockets pg)) = []"
    by (auto simp: filter_empty_conv)
  ultimately show ?thesis by (simp add: live_sockets_def)
qed

lemma inv_update_notlive:
  assumes "\<forall>s \<in> set xs. \<not> is_live s" "\<not> is_live y"
  shows "\<forall>s \<in> set (xs[i := y]). \<not> is_live s"
  using assms by (metis insert_iff set_update_subset_insert subsetD)

lemma inv_step:
  assumes "one_channel_inv pg" "ev = Unmount \<longrightarrow> \<not> still_connecting pg"
  shows "one_channel_inv (page_step U ev pg)"
proof (cases ev)
  case (Login r)
  with assms show ?thesis
    by (simp add: page_step_def handleLogin_def one_channel_inv_def split: option.splits)
next
  case Mount
  with assms show ?thesis
    by (auto simp: page_step_def socket_effect_def one_channel_inv_def Let_def
        split: option.splits)
next
  case Unmount
  show ?thesis
  proof (cases "effect_socket pg")
    case None
    with Unmount assms show ?thesis
      by (simp add: page_step_def socket_cleanup_def one_channel_inv_def)
  next
    case (Some i)
    with assms have ne: "sockets pg \<noteq> []" and i: "i = length (sockets pg) - 1"
      and b: "\<forall>s \<in> set (butlast (sockets pg)). \<not> is_live s"
      by (simp_all add: one_channel_inv_def)
    have sp: "sockets pg = butlast (sockets pg) @ [last (sockets pg)]"
      using ne by simp
    have li: "sockets pg ! i = last (sockets pg)"
      using ne i by (simp add: last_conv_nth)
    have il: "i < length (sockets pg)" using ne i by simp
    show ?thesis
    proof (cases "readyState (last (sockets pg)) = OPEN")
      case True
      have "set ((sockets pg)[i := (sockets pg ! i)\<lparr>readyState := CLOSING\<rparr>])
              \<subseteq> insert ((last (sockets pg))\<lparr>readyState := CLOSING\<rparr>) (set (butlast (sockets pg)))"
      proof -
        have "(sockets pg)[i := (sockets pg ! i)\<lparr>readyState := CLOSING\<rparr>]
                = butlast (sockets pg) @ [(last (sockets pg))\<lparr>readyState := CLOSING\<rparr>]"
          using sp i li by (metis length_butlast list_update_length)
        then show ?thesis by auto
      qed
      with b have "\<forall>s \<in> set ((sockets pg)[i := (sockets pg ! i)\<lparr>readyState := CLOSING\<rparr>]). \<not> is_live s"
        by (auto simp: is_live_def)
      with True Some Unmount il li show ?thesis
        by (simp add: page_step_def socket_cleanup_def one_channel_inv_def)
    next
      case False
      with assms(2) Unmount Some il li have "\<not> is_live (last (sockets pg))"
        by (simp add: still_connecting_def is_live_def)
      with b sp have "\<forall>s \<in> set (sockets pg). \<not> is_live s"
        by (metis Un_iff empty_iff empty_set insert_iff list.simps(15) set_append)
      with False Some Unmount il li show ?thesis
        by (simp add: page_step_def socket_cleanup_def one_channel_inv_def)
    qed
  qed
next
  case (NetOpen j)
  show ?thesis
  proof (cases "j < length (sockets pg) \<and> readyState (sockets pg ! j) = CONNECTING")
    case False
    with NetOpen assms show ?thesis
      by (auto simp: page_step_def)
  next
    case True
    then have live: "is_live (sockets pg ! j)" and jl: "j < length (sockets pg)"
      by (simp_all add: is_live_def)
    let ?y = "(sockets pg ! j)\<lparr>readyState := OPEN\<rparr>"
    have st: "page_step U ev pg = pg\<lparr>sockets := (sockets pg)[j := ?y]\<rparr>"
      using True NetOpen by (simp add: page_step_def)
    show ?thesis
    proof (cases "effect_socket pg")
      case None
      with assms(1) jl live show ?thesis
        by (auto simp: one_channel_inv_def)
    next
      case (Some i)
      with assms have ne: "sockets pg \<noteq> []" and i: "i = length (sockets pg) - 1"
        and b: "\<forall>s \<in> set (butlast (sockets pg)). \<not> is_live s"
        by (simp_all add: one_channel_inv_def)
      have "\<not> j < length (butlast (sockets pg))"
      proof
        assume "j < length (butlast (sockets pg))"
        then have "butlast (sockets pg) ! j \<in> set (butlast (sockets pg))"
          by (rule nth_mem)
        moreover have "butlast (sockets pg) ! j = sockets pg ! j"
          using \<open>j < length (butlast (sockets pg))\<close> by (simp add: nth_butlast)
        ultimately show False using b live by auto
      qed
      then have "butlast ((sockets pg)[j := ?y]) = butlast (sockets pg)"
        by (simp add: butlast_list_update list_update_beyond)
      with Some ne i b show ?thesis
        by (simp add: st one_channel_inv_def)
    qed
  qed
next
  case (NetClose j)
  show ?thesis
  proof (cases "j < length (sockets pg)")
    case False
    with NetClose assms show ?thesis
      by (simp add: page_step_def)
  next
    case True
    let ?y = "(sockets pg ! j)\<lparr>readyState := CLOSED\<rparr>"
    have ny: "\<not> is_live ?y" by (simp add: is_live_def)
    have st: "page_step U ev pg = pg\<lparr>sockets := (sockets pg)[j := ?y]\<rparr>"
      using True NetClose by (simp add: page_step_def)
    show ?thesis
    proof (cases "effect_socket pg")
      case None
      with assms(1) have "\<forall>s \<in> set (sockets pg). \<not> is_live s"
        by (simp add: one_channel_inv_def)
      from inv_update_notlive [OF this ny] None show ?thesis
        by (simp add: st one_channel_inv_def)
    next
      case (Some i)
      with assms have ne: "sockets pg \<noteq> []" and i: "i = length (sockets pg) - 1"
        and b: "\<forall>s \<in> set (butlast (sockets pg)). \<not> is_live s"
        by (simp_all add: one_channel_inv_def)
      have "butlast ((sockets pg)[j := ?y]) = (butlast (sockets pg))[j := ?y]"
        by (simp add: butlast_list_update list_update_beyond)
      with inv_update_notlive [OF b ny] Some ne i show ?thesis
        by (simp add: st one_channel_inv_def)
    qed
  qed
qed

lemma inv_run:
  "one_channel_inv pg \<Longrightarrow> unmounts_after_open U evs pg \<Longrightarrow> one_channel_inv (page_run U evs pg)"
proof (induction evs arbitrary: pg)
  case Nil
  then show ?case by (simp add: page_run_def)
next
  case (Cons ev evs)
  from Cons.prems have "one_channel_inv (page_step U ev pg)"
    by (simp add: inv_step)
  with Cons.IH [of "page_step U ev pg"] Cons.prems show ?case
    by (simp add: page_run_def)
qed

text \<open>
  C7, as stated: the socket is closed on unmount and two channels are never held for
  one session. After a login, a mount, an unmount before the socket has opened and a
  second mount, two sockets for the same session are live.
\<close>

theorem remount_while_connecting_counterexample:
  "map socket_url (live_sockets (page_run ''ws://localhost:8000/ws''
         [Login sample_login, Mount, Unmount, Mount] initial_page))
     = [''ws://localhost:8000/ws/audio/s1'', ''ws://localhost:8000/ws/audio/s1'']"
  by (simp add: page_run_def page_step_def handleLogin_def socket_effect_def socket_cleanup_def
      initial_page_def sample_login_def live_sockets_def is_live_def Let_def)

text \<open>
  C7, amended. Each mount opens exactly one socket, for the session id that login stored;
  the cleanup closes that socket if it is OPEN and leaves it alone otherwise; and on
  every run of the page in which no unmount happens while the component's socket is
  still CONNECTING, at most one socket is live at the end.
\<close>

theorem one_socket_per_mount:
  "sockets (socket_effect U pg)
     = sockets pg @ [\<lparr> socket_url = U @ ''/audio/'' @
                          (case localStorage pg ''session_id'' of None \<Rightarrow> ''null'' | Some s \<Rightarrow> s),
                        readyState = CONNECTING \<rparr>]
   \<and> (response_ok r \<longrightarrow> localStorage (handleLogin r pg) ''session_id'' = Some (data_session_id r))
   \<and> (effect_socket pg = Some i \<and> i < length (sockets pg) \<longrightarrow>
        sockets (socket_cleanup pg)
          = (if readyState (sockets pg ! i) = OPEN
             then (sockets pg)[i := (sockets pg ! i)\<lparr> readyState := CLOSING \<rparr>]
             else sockets pg))
   \<and> (unmounts_after_open U evs initial_page \<longrightarrow>
        length (live_sockets (page_run U evs initial_page)) \<le> 1)"
proof (intro conjI impI)
  show "sockets (socket_effect U pg)
     = sockets pg @ [\<lparr> socket_url = U @ ''/audio/'' @
                          (case localStorage pg ''session_id'' of None \<Rightarrow> ''null'' | Some s \<Rightarrow> s),
                        readyState = CONNECTING \<rparr>]"
    by (simp add: socket_effect_def Let_def)
next
  assume "response_ok r"
  then show "localStorage (handleLogin r pg) ''session_id'' = Some (data_session_id r)"
    by (simp add: handleLogin_def)
next
  assume "effect_socket pg = Some i \<and> i < length (sockets pg)"
  then show "sockets (socket_cleanup pg)
          = (if readyState (sockets pg ! i) = OPEN
             then (sockets pg)[i := (sockets pg ! i)\<lparr> readyState := CLOSING \<rparr>]
             else sockets pg)"
    by (simp add: socket_cleanup_def)
next
  assume a: "unmounts_after_open U evs initial_page"
  have "one_channel_inv initial_page"
    by (simp add: one_channel_inv_def initial_page_def)
  from inv_bound [OF inv_run [OF this a]]
  show "length (live_sockets (page_run U evs initial_page)) \<le> 1" .
qed

lemma sample_trace_state:
  "page_run ''ws://localhost:8000/ws'' [Login sample_login, Mount, NetOpen 0, Unmount, Mount] initial_page
     = \<lparr> localStorage = [''token'' \<mapsto> ''t0'', ''session_id'' \<mapsto> ''s1''], isAuthenticated = True,
         sockets = [\<lparr> socket_url = ''ws://localhost:8000/ws/audio/s1'', readyState = CLOSING \<rparr>,
                    \<lparr> socket_url = ''ws://localhost:8000/ws/audio/s1'', readyState = CONNECTING \<rparr>],
         effect_socket = Some 1 \<rparr>"
  by (simp add: page_run_def page_step_def handleLogin_def socket_effect_def socket_cleanup_def
      initial_page_def sample_login_def Let_def)

theorem one_socket_per_mount_witness:
  "response_ok sample_login
   \<and> localStorage (handleLogin sample_login initial_page) ''session_id'' = Some ''s1''
   \<and> unmounts_after_open ''ws://localhost:8000/ws''
         [Login sample_login, Mount, NetOpen 0, Unmount, Mount] initial_page
   \<and> length (live_sockets (page_run ''ws://localhost:8000/ws''
         [Login sample_login, Mount, NetOpen 0, Unmount, Mount] initial_page)) \<le> 1
   \<and> map readyState (sockets (page_run ''ws://localhost:8000/ws''
         [Login sample_login, Mount, NetOpen 0, Unmount, Mount] initial_page)) = [CLOSING, CONNECTING]"
proof -
  have ok: "response_ok sample_login"
    by (simp add: sample_login_def)
  have u: "unmounts_after_open ''ws://localhost:8000/ws''
         [Login sample_login, Mount, NetOpen 0, Unmount, Mount] initial_page"
    by (simp add: page_step_def handleLogin_def socket_effect_def socket_cleanup_def
        initial_page_def sample_login_def still_connecting_def Let_def)
  note t = one_socket_per_mount [where r = sample_login and pg = initial_page and U = "''ws://localhost:8000/ws''"
      and evs = "[Login sample_login, Mount, NetOpen 0, Unmount, Mount]"]
  from t ok have "localStorage (handleLogin sample_login initial_page) ''session_id'' = Some ''s1''"
    by (simp add: sample_login_def)
  moreover from t u have "length (live_sockets (page_run ''ws://localhost:8000/ws''
         [Login sample_login, Mount, NetOpen 0, Unmount, Mount] initial_page)) \<le> 1"
    by blast
  ultimately show ?thesis
    using ok u by (simp add: sample_trace_state)
qed


section \<open>Properties of the Turn Gate\<close>

lemma response_frames_no_terminator:
  "filter (\<lambda>f. f = EndOfDialogStep) (response_frames result) = []"
proof (cases result)
  case (AgentCompleted responses)
  have "\<And>c. forward c \<noteq> EndOfDialogStep"
    by (case_tac c) simp_all
  then show ?thesis
    using AgentCompleted by (induction responses) (auto simp: filter_empty_conv)
next
  case AgentStepFailure
  then show ?thesis by simp
qed

lemma accounted_step:
  assumes "accounted s" "ev \<noteq> TransportLost"
  shows "accounted (session_step max_depth ev s)"
proof (cases ev)
  case (Submit input)
  with assms(1) show ?thesis
    by (auto simp: session_step_def submit_def accounted_def step_terminators_def in_flight_def
        split: option.splits)
next
  case (AgentSignal result)
  with assms(1) show ?thesis
    by (auto simp: session_step_def agent_signal_def accounted_def step_terminators_def
        in_flight_def response_frames_no_terminator)
next
  case TerminatorFlushed
  with assms(1) show ?thesis
    by (auto simp: session_step_def send_step_terminator_def accounted_def step_terminators_def
        in_flight_def split: list.splits)
next
  case TransportLost
  with assms(2) show ?thesis by simp
qed

lemma accounted_run:
  "accounted s \<Longrightarrow> TransportLost \<notin> set evs \<Longrightarrow> accounted (session_run max_depth evs s)"
proof (induction evs arbitrary: s)
  case Nil
  then show ?case by (simp add: session_run_def)
next
  case (Cons ev evs)
  then have "ev \<noteq> TransportLost" by auto
  with Cons.prems have "accounted (session_step max_depth ev s)"
    by (simp add: accounted_step)
  with Cons.IH [of "session_step max_depth ev s"] Cons.prems show ?case
    by (simp add: session_run_def)
qed

lemma drain_accounted:
  "accounted s \<Longrightarrow>
     gate (drain agent s) = IDLE \<and> pending (drain agent s) = []
     \<and> accepted (drain agent s) = accepted s
     \<and> step_terminators (drain agent s) = accepted s"
proof (induction agent s rule: drain.induct)
  case (1 agent s)
  show ?case
  proof (cases "gate s")
    case IDLE
    with "1.prems" show ?thesis
      by (auto simp: drain.simps [of agent s] accounted_def in_flight_def)
  next
    case STEP_ACTIVE
    let ?s' = "agent_signal (run_agent agent s) s"
    have a: "accounted ?s'"
      using accounted_step [OF "1.prems", of "AgentSignal (run_agent agent s)"]
      by (simp add: session_step_def)
    have e: "accepted ?s' = accepted s"
      by (simp add: agent_signal_def)
    have d: "drain agent s = drain agent ?s'"
      using STEP_ACTIVE by (simp add: drain.simps [of agent s])
    from "1.IH"(1) [OF STEP_ACTIVE a] show ?thesis
      unfolding d e .
  next
    case DRAINING
    let ?s' = "send_step_terminator s"
    have a: "accounted ?s'"
      using accounted_step [OF "1.prems", of TerminatorFlushed]
      by (simp add: session_step_def)
    have e: "accepted ?s' = accepted s"
      by (simp add: send_step_terminator_def split: list.splits)
    have d: "drain agent s = drain agent ?s'"
      using DRAINING by (simp add: drain.simps [of agent s])
    from "1.IH"(2) [OF DRAINING a] show ?thesis
      unfolding d e .
  qed
qed

text \<open>
  C3, as stated: the step terminators sent equal the accepted inputs, for all sessions.
  Two inputs are accepted, the transport is lost, and the server, having finished all it
  holds, has sent no terminator.
\<close>

theorem transport_lost_drops_inputs_counterexample:
  "accepted (session_run None [Submit (AudioInput [1]), Submit (AudioInput [2]), TransportLost]
               initial_session) = 2
   \<and> step_terminators (drain failing_agent
         (session_run None [Submit (AudioInput [1]), Submit (AudioInput [2]), TransportLost]
            initial_session)) = 0"
  by (simp add: session_run_def session_step_def submit_def transport_lost_def
      initial_session_def drain.simps step_terminators_def)

text \<open>
  C3, amended. On a session that does not lose its transport, the terminators sent and
  the inputs still in flight add up to the inputs accepted at every moment; and once the
  server has finished the work it holds, whatever the Agent returned or however it
  failed, the gate is idle, the queue is empty and exactly one step terminator has been
  sent per accepted input.
\<close>

theorem one_terminator_per_accepted_input:
  assumes "TransportLost \<notin> set evs"
  shows "step_terminators (session_run max_depth evs initial_session)
           + in_flight (session_run max_depth evs initial_session)
           = accepted (session_run max_depth evs initial_session)
       \<and> gate (drain agent (session_run max_depth evs initial_session)) = IDLE
       \<and> pending (drain agent (session_run max_depth evs initial_session)) = []
       \<and> step_terminators (drain agent (session_run max_depth evs initial_session))
           = accepted (session_run max_depth evs initial_session)"
proof -
  have "accounted initial_session"
    by (simp add: accounted_def initial_session_def step_terminators_def in_flight_def)
  from accounted_run [OF this assms]
  have a: "accounted (session_run max_depth evs initial_session)" .
  from drain_accounted [OF a, of agent] a show ?thesis
    by (simp add: accounted_def)
qed

lemma sample_session:
  "session_run (Some 1)
     [Submit (AudioInput [1]), Submit (AudioInput [2]), Submit (AudioInput [3]),
      Submit (ActionInput [(''clicked_image'', JString ''x.jpg'')]),
      AgentSignal AgentStepFailure] initial_session
   = \<lparr> gate = DRAINING, active_input = Some (AudioInput [1]), pending = [AudioInput [2]],
       outbound = [EndOfResponse], accepted = 2, channel_connected = True \<rparr>"
  by (simp add: session_run_def session_step_def submit_def agent_signal_def initial_session_def)

theorem one_terminator_per_accepted_input_witness:
  "TransportLost \<notin> set [Submit (AudioInput [1]), Submit (AudioInput [2]), Submit (AudioInput [3]),
      Submit (ActionInput [(''clicked_image'', JString ''x.jpg'')]),
      AgentSignal AgentStepFailure]
   \<and> accepted (session_run (Some 1)
     [Submit (AudioInput [1]), Submit (AudioInput [2]), Submit (AudioInput [3]),
      Submit (ActionInput [(''clicked_image'', JString ''x.jpg'')]),
      AgentSignal AgentStepFailure] initial_session) = 2
   \<and> outbound (drain failing_agent (session_run (Some 1)
     [Submit (AudioInput [1]), Submit (AudioInput [2]), Submit (AudioInput [3]),
      Submit (ActionInput [(''clicked_image'', JString ''x.jpg'')]),
      AgentSignal AgentStepFailure] initial_session))
     = [EndOfResponse, EndOfDialogStep, EndOfResponse, EndOfDialogStep]
   \<and> step_terminators (drain failing_agent (session_run (Some 1)
     [Submit (AudioInput [1]), Submit (AudioInput [2]), Submit (AudioInput [3]),
      Submit (ActionInput [(''clicked_image'', JString ''x.jpg'')]),
      AgentSignal AgentStepFailure] initial_session)) = 2"
proof -
  let ?evs = "[Submit (AudioInput [1]), Submit (AudioInput [2]), Submit (AudioInput [3]),
      Submit (ActionInput [(''clicked_image'', JString ''x.jpg'')]),
      AgentSignal AgentStepFailure]"
  have n: "TransportLost \<notin> set ?evs" by simp
  have o: "outbound (drain failing_agent (session_run (Some 1) ?evs initial_session))
     = [EndOfResponse, EndOfDialogStep, EndOfResponse, EndOfDialogStep]"
    unfolding sample_session
    by (simp add: drain.simps send_step_terminator_def agent_signal_def run_agent_def
        failing_agent_def)
  from one_terminator_per_accepted_input [OF n, of "Some 1" failing_agent]
  have "step_terminators (drain failing_agent (session_run (Some 1) ?evs initial_session))
          = accepted (session_run (Some 1) ?evs initial_session)"
    by blast
  moreover have "accepted (session_run (Some 1) ?evs initial_session) = 2"
    unfolding sample_session by simp
  ultimately show ?thesis
    using n o by simp
qed


end
